theory Spec2Isabelle
  imports Main "HOL-Library.Word"
begin

unbundle bit_operations_syntax

section \<open>The Go library functions the drivers call\<close>

text \<open>
  A Go \<open>string\<close> is a sequence of bytes, here a \<open>char list\<close>. The three drivers hand
  their text to \<open>strings.Split\<close>, \<open>strings.Contains\<close>, \<open>strings.TrimSpace\<close>,
  \<open>strings.Fields\<close>, \<open>fmt.Sprintf\<close> and \<open>regexp\<close>; the last four read the bytes as
  UTF-8, one rune at a time. The functions below follow the behaviour the Go
  documentation and library sources give them, on every byte string.
\<close>

subsection \<open>Runes: \<open>utf8.DecodeRuneInString\<close>, \<open>utf8.DecodeLastRuneInString\<close>\<close>

text \<open>A rune is an \<open>int32\<close> code point; an invalid encoding decodes to \<open>RuneError\<close>, width 1.\<close>

definition RuneError :: int where
  "RuneError = 0xFFFD"

definition byteAt :: "string \<Rightarrow> nat \<Rightarrow> int" where
  "byteAt s i = of_char (s ! i)"

text \<open>The length of the encoding that a leading byte in \<open>0xC2..0xF4\<close> announces.\<close>

definition seqLen :: "int \<Rightarrow> nat" where
  "seqLen s0 = (if s0 < 0xE0 then 2 else if s0 < 0xF0 then 3 else 4)"

text \<open>The range accepted for the second byte (Go's \<open>acceptRanges\<close>).\<close>

definition acceptLo :: "int \<Rightarrow> int" where
  "acceptLo s0 = (if s0 = 0xE0 then 0xA0 else if s0 = 0xF0 then 0x90 else 0x80)"

definition acceptHi :: "int \<Rightarrow> int" where
  "acceptHi s0 = (if s0 = 0xED then 0x9F else if s0 = 0xF4 then 0x8F else 0xBF)"

definition contByte :: "int \<Rightarrow> bool" where
  "contByte b = (0x80 \<le> b \<and> b \<le> 0xBF)"

definition validSeq :: "string \<Rightarrow> bool" where
  "validSeq s =
     (let s0 = byteAt s 0; sz = seqLen s0 in
      0xC2 \<le> s0 \<and> s0 \<le> 0xF4 \<and> sz \<le> length s
      \<and> acceptLo s0 \<le> byteAt s 1 \<and> byteAt s 1 \<le> acceptHi s0
      \<and> (if 3 \<le> sz then contByte (byteAt s 2) else True)
      \<and> (if 4 \<le> sz then contByte (byteAt s 3) else True))"

text \<open>
  The code point of a valid multi-byte encoding; the masks and shifts of the Go source
  are written as \<open>mod\<close> and multiplication.
\<close>

definition seqRune :: "string \<Rightarrow> int" where
  "seqRune s =
     (let s0 = byteAt s 0; sz = seqLen s0 in
      if sz = 2 then (s0 mod 0x20) * 0x40 + byteAt s 1 mod 0x40
      else if sz = 3 then
        (s0 mod 0x10) * 0x1000 + (byteAt s 1 mod 0x40) * 0x40 + byteAt s 2 mod 0x40
      else (s0 mod 0x08) * 0x40000 + (byteAt s 1 mod 0x40) * 0x1000
             + (byteAt s 2 mod 0x40) * 0x40 + byteAt s 3 mod 0x40)"

text \<open>The first rune of \<open>s\<close> and its width in bytes.\<close>

definition decodeRune :: "string \<Rightarrow> int \<times> nat" where
  "decodeRune s =
     (if s = [] then (RuneError, 0)
      else if byteAt s 0 < 0x80 then (byteAt s 0, 1)
      else if validSeq s then (seqRune s, seqLen (byteAt s 0))
      else (RuneError, 1))"

lemma seqLen_pos: "0 < seqLen b"
  by (simp add: seqLen_def)

lemma decodeRune_size_pos: "s \<noteq> [] \<Longrightarrow> 0 < snd (decodeRune s)"
  by (simp add: decodeRune_def seqLen_pos)

lemma decodeRune_size_le: "snd (decodeRune s) \<le> length s"
proof (cases "s = []")
  case True
  then show ?thesis by (simp add: decodeRune_def)
next
  case False
  then have "1 \<le> length s" by (cases s) simp_all
  moreover have "validSeq s \<Longrightarrow> seqLen (byteAt s 0) \<le> length s"
    by (simp add: validSeq_def Let_def)
  ultimately show ?thesis using False by (simp add: decodeRune_def)
qed

lemma decodeRune_drop_less:
  "s \<noteq> [] \<Longrightarrow> length s - snd (decodeRune s) < length s"
  using decodeRune_size_pos [of s] by (cases s) auto

definition RuneStart :: "int \<Rightarrow> bool" where
  "RuneStart b = (\<not> contByte b)"

text \<open>
  The backward scan of \<open>DecodeLastRuneInString\<close>:
  \<open>for start--; start >= lim; start-- { if RuneStart(s[start]) { break } }\<close>,
  entered with \<open>start\<close> already decremented.
\<close>

function scanBack :: "string \<Rightarrow> int \<Rightarrow> int \<Rightarrow> int" where
  "scanBack s start lim =
     (if start \<ge> lim then
        (if RuneStart (byteAt s (nat start)) then start else scanBack s (start - 1) lim)
      else start)"
  by pat_completeness auto
termination
  by (relation "measure (\<lambda>(s, start, lim). nat (start - lim + 1))") auto

declare scanBack.simps [simp del]

text \<open>The last rune of \<open>s\<close> and its width in bytes.\<close>

definition decodeLastRune :: "string \<Rightarrow> int \<times> nat" where
  "decodeLastRune s =
     (let end = int (length s) in
      if end = 0 then (RuneError, 0)
      else
        let r = byteAt s (nat (end - 1)) in
        if r < 0x80 then (r, 1)
        else
          let lim = (if end - 4 < 0 then 0 else end - 4);
              start0 = scanBack s (end - 2) lim;
              start = (if start0 < 0 then 0 else start0);
              d = decodeRune (drop (nat start) s)
          in if start + int (snd d) \<noteq> end then (RuneError, 1) else d)"

lemma scanBack_le: "scanBack s start lim \<le> start"
proof (induction s start lim rule: scanBack.induct)
  case (1 s start lim)
  show ?case
  proof (cases "start \<ge> lim \<and> \<not> RuneStart (byteAt s (nat start))")
    case True
    with "1.IH" have "scanBack s (start - 1) lim \<le> start - 1" by simp
    with True show ?thesis by (subst scanBack.simps) simp
  next
    case False
    then show ?thesis by (subst scanBack.simps) auto
  qed
qed

lemma decodeLastRune_size_pos: "s \<noteq> [] \<Longrightarrow> 0 < snd (decodeLastRune s)"
proof -
  assume ne: "s \<noteq> []"
  define e where "e = int (length s)"
  define st where "st = (if scanBack s (e - 2) (if e - 4 < 0 then 0 else e - 4) < 0 then 0
                         else scanBack s (e - 2) (if e - 4 < 0 then 0 else e - 4))"
  define d where "d = decodeRune (drop (nat st) s)"
  from ne have e: "0 < e" by (simp add: e_def)
  have "scanBack s (e - 2) (if e - 4 < 0 then 0 else e - 4) \<le> e - 2"
    by (rule scanBack_le)
  with e have lt: "st < e" "0 \<le> st" by (auto simp add: st_def)
  then have "drop (nat st) s \<noteq> []" by (simp add: e_def)
  then have dpos: "0 < snd d" unfolding d_def by (rule decodeRune_size_pos)
  have eq: "decodeLastRune s =
          (if byteAt s (nat (e - 1)) < 0x80 then (byteAt s (nat (e - 1)), 1)
           else if st + int (snd d) \<noteq> e then (RuneError, 1) else d)"
    using e unfolding decodeLastRune_def Let_def e_def [symmetric] st_def [symmetric]
      d_def [symmetric] by simp
  show ?thesis unfolding eq using dpos by simp
qed

lemma decodeLastRune_take_less:
  "s \<noteq> [] \<Longrightarrow> length s - snd (decodeLastRune s) < length s"
  using decodeLastRune_size_pos [of s] by (cases s) auto

subsection \<open>\<open>unicode.IsSpace\<close>, \<open>strings.TrimSpace\<close>, \<open>strings.Fields\<close>\<close>

text \<open>
  \<open>unicode.IsSpace\<close>: in Latin-1 the runes \<open>\t \n \v \f \r\<close>, space, U+0085 and U+00A0;
  beyond it the code points of the Unicode property \<open>White_Space\<close>.
\<close>

definition isSpace :: "int \<Rightarrow> bool" where
  "isSpace r =
     (if r \<le> 0xFF then
        r = 0x09 \<or> r = 0x0A \<or> r = 0x0B \<or> r = 0x0C \<or> r = 0x0D \<or> r = 0x20
        \<or> r = 0x85 \<or> r = 0xA0
      else
        r = 0x1680 \<or> (0x2000 \<le> r \<and> r \<le> 0x200A) \<or> r = 0x2028 \<or> r = 0x2029
        \<or> r = 0x202F \<or> r = 0x205F \<or> r = 0x3000)"

text \<open>\<open>strings.TrimLeftFunc(s, unicode.IsSpace)\<close>: runes decoded from the front.\<close>

function TrimLeftSpace :: "string \<Rightarrow> string" where
  "TrimLeftSpace s =
     (if s = [] then s
      else if isSpace (fst (decodeRune s)) then TrimLeftSpace (drop (snd (decodeRune s)) s)
      else s)"
  by pat_completeness auto
termination
  by (relation "measure length") (auto simp add: decodeRune_drop_less)

declare TrimLeftSpace.simps [simp del]

text \<open>\<open>strings.TrimRightFunc(s, unicode.IsSpace)\<close>: runes decoded from the back.\<close>

function TrimRightSpace :: "string \<Rightarrow> string" where
  "TrimRightSpace s =
     (if s = [] then s
      else if isSpace (fst (decodeLastRune s))
        then TrimRightSpace (take (length s - snd (decodeLastRune s)) s)
      else s)"
  by pat_completeness auto
termination
  by (relation "measure length") (auto simp add: decodeLastRune_take_less)

declare TrimRightSpace.simps [simp del]

definition TrimSpace :: "string \<Rightarrow> string" where
  "TrimSpace s = TrimRightSpace (TrimLeftSpace s)"

text \<open>
  \<open>strings.Fields\<close>: the maximal runs of runes that are not white space, in order.
  \<open>field\<close> is the run collected so far.
\<close>

function fieldsFrom :: "string \<Rightarrow> string \<Rightarrow> string list" where
  "fieldsFrom field s =
     (if s = [] then (if field = [] then [] else [field])
      else if isSpace (fst (decodeRune s)) then
        (if field = [] then fieldsFrom [] (drop (snd (decodeRune s)) s)
         else field # fieldsFrom [] (drop (snd (decodeRune s)) s))
      else fieldsFrom (field @ take (snd (decodeRune s)) s) (drop (snd (decodeRune s)) s))"
  by pat_completeness auto
termination
  by (relation "measure (\<lambda>(field, s). length s)") (auto simp add: decodeRune_drop_less)

declare fieldsFrom.simps [simp del]

definition Fields :: "string \<Rightarrow> string list" where
  "Fields s = fieldsFrom [] s"

subsection \<open>\<open>strings.Split\<close>, \<open>strings.Contains\<close>, \<open>fmt.Sprintf\<close>\<close>

text \<open>
  \<open>strings.Split(s, sep)\<close> for a separator of one byte, as the drivers call it (\<open>"="\<close>
  and \<open>"/"\<close>): the pieces between the separators, one more than there are separators.
\<close>

fun splitFrom :: "char \<Rightarrow> string \<Rightarrow> string \<Rightarrow> string list" where
  "splitFrom sep piece [] = [piece]"
| "splitFrom sep piece (c # s) =
     (if c = sep then piece # splitFrom sep [] s else splitFrom sep (piece @ [c]) s)"

definition Split :: "string \<Rightarrow> char \<Rightarrow> string list" where
  "Split s sep = splitFrom sep [] s"

definition Contains :: "string \<Rightarrow> char \<Rightarrow> bool" where
  "Contains s sep = (sep \<in> set s)"

text \<open>
  \<open>fmt.Sprintf(format, a)\<close> with one string operand, for a format whose only verb is
  \<open>%s\<close>: the operand replaces the first \<open>%s\<close>; a format without a verb gets the operand
  appended as \<open>%!(EXTRA string=...)\<close>.
\<close>

fun Sprintf :: "string \<Rightarrow> string \<Rightarrow> string" where
  "Sprintf [] a = ''%!(EXTRA string='' @ a @ '')''"
| "Sprintf [c] a = [c] @ Sprintf [] a"
| "Sprintf (c # d # format) a =
     (if c = CHR ''%'' \<and> d = CHR ''s'' then a @ format else c # Sprintf (d # format) a)"

subsection \<open>\<open>regexp\<close>: the patterns of the drivers\<close>

text \<open>
  The patterns of the two wired drivers use literal characters, \<open>.\<close>, the Perl classes
  \<open>\s\<close>, \<open>\w\<close>, \<open>\d\<close>, the greedy quantifiers \<open>*\<close> and \<open>+\<close> on one character, and
  capture groups that are neither nested nor quantified. A character class tells which
  runes it matches: \<open>.\<close> every rune but newline, \<open>\s\<close> is \<open>[\t\n\f\r ]\<close>, \<open>\w\<close> is
  \<open>[0-9A-Za-z_]\<close>, \<open>\d\<close> is \<open>[0-9]\<close>.
\<close>

datatype cclass = Lit char | AnyNotNL | PerlSpace | PerlWord | PerlDigit

definition classHas :: "cclass \<Rightarrow> int \<Rightarrow> bool" where
  "classHas c r =
     (case c of
        Lit ch \<Rightarrow> r = of_char ch
      | AnyNotNL \<Rightarrow> r \<noteq> 0x0A
      | PerlSpace \<Rightarrow> r = 0x09 \<or> r = 0x0A \<or> r = 0x0C \<or> r = 0x0D \<or> r = 0x20
      | PerlWord \<Rightarrow> (0x30 \<le> r \<and> r \<le> 0x39) \<or> (0x41 \<le> r \<and> r \<le> 0x5A) \<or> r = 0x5F
                     \<or> (0x61 \<le> r \<and> r \<le> 0x7A)
      | PerlDigit \<Rightarrow> 0x30 \<le> r \<and> r \<le> 0x39)"

text \<open>
  The number of bytes a class consumes at the head of the input: the width of the first
  rune when the class has it, 0 when it does not match.
\<close>

definition accepts :: "cclass \<Rightarrow> string \<Rightarrow> nat" where
  "accepts c s =
     (if s = [] then 0
      else if classHas c (fst (decodeRune s)) then snd (decodeRune s)
      else 0)"

text \<open>A compiled pattern is a sequence of instructions.\<close>

datatype inst = Rune1 cclass | Star cclass | Plus cclass | CapOpen | CapClose

definition escClass :: "char \<Rightarrow> cclass" where
  "escClass c =
     (if c = CHR ''s'' then PerlSpace
      else if c = CHR ''w'' then PerlWord
      else if c = CHR ''d'' then PerlDigit
      else Lit c)"

definition quantified :: "cclass \<Rightarrow> string \<Rightarrow> inst" where
  "quantified c rest =
     (if rest = [] then Rune1 c
      else if hd rest = CHR ''*'' then Star c
      else if hd rest = CHR ''+'' then Plus c
      else Rune1 c)"

definition afterQuantifier :: "string \<Rightarrow> string" where
  "afterQuantifier rest =
     (if rest = [] then rest
      else if hd rest = CHR ''*'' \<or> hd rest = CHR ''+'' then tl rest
      else rest)"

lemma afterQuantifier_length: "length (afterQuantifier rest) \<le> length rest"
  by (simp add: afterQuantifier_def)

text \<open>\<open>regexp.MustCompile\<close> on this syntax; \<open>CHR 0x5C\<close> is the backslash.\<close>

function compile :: "string \<Rightarrow> inst list" where
  "compile [] = []"
| "compile (c # rest) =
     (if c = CHR ''('' then CapOpen # compile rest
      else if c = CHR '')'' then CapClose # compile rest
      else if c = CHR 0x5C then
        (if rest = [] then []
         else quantified (escClass (hd rest)) (tl rest) # compile (afterQuantifier (tl rest)))
      else if c = CHR ''.'' then quantified AnyNotNL rest # compile (afterQuantifier rest)
      else quantified (Lit c) rest # compile (afterQuantifier rest))"
  by pat_completeness auto
termination
proof (relation "measure length", goal_cases)
  case 1
  show ?case by simp
next
  case (2 c rest)
  show ?case by simp
next
  case (3 c rest)
  show ?case by simp
next
  case (4 c rest)
  have "length (afterQuantifier (tl rest)) \<le> length (tl rest)"
    by (rule afterQuantifier_length)
  then show ?case by simp
next
  case (5 c rest)
  have "length (afterQuantifier rest) \<le> length rest"
    by (rule afterQuantifier_length)
  then show ?case by simp
next
  case (6 c rest)
  have "length (afterQuantifier rest) \<le> length rest"
    by (rule afterQuantifier_length)
  then show ?case by simp
qed

lemma accepts_drop_less: "accepts c s \<noteq> 0 \<Longrightarrow> length s - accepts c s < length s"
  by (cases "s = []") (simp_all add: accepts_def)

text \<open>
  Matching at one position, as the backtracking search that defines Go's leftmost-first
  result: a quantifier first takes one more character and gives it back only when the
  rest of the pattern fails. \<open>pos\<close> is the byte offset in the whole input, \<open>gstart\<close> the
  offset at which the open group began, \<open>caps\<close> the groups closed so far. The result is
  the offset of the end of the match with the groups' offsets.
\<close>

function matchHere ::
  "inst list \<Rightarrow> string \<Rightarrow> nat \<Rightarrow> nat \<Rightarrow> (nat \<times> nat) list \<Rightarrow> (nat \<times> (nat \<times> nat) list) option"
where
  "matchHere [] s pos gstart caps = Some (pos, caps)"
| "matchHere (CapOpen # prog) s pos gstart caps = matchHere prog s pos pos caps"
| "matchHere (CapClose # prog) s pos gstart caps =
     matchHere prog s pos gstart (caps @ [(gstart, pos)])"
| "matchHere (Rune1 c # prog) s pos gstart caps =
     (if accepts c s = 0 then None
      else matchHere prog (drop (accepts c s) s) (pos + accepts c s) gstart caps)"
| "matchHere (Star c # prog) s pos gstart caps =
     (if accepts c s = 0 then matchHere prog s pos gstart caps
      else (case matchHere (Star c # prog) (drop (accepts c s) s) (pos + accepts c s) gstart caps of
              Some m \<Rightarrow> Some m
            | None \<Rightarrow> matchHere prog s pos gstart caps))"
| "matchHere (Plus c # prog) s pos gstart caps =
     (if accepts c s = 0 then None
      else matchHere (Star c # prog) (drop (accepts c s) s) (pos + accepts c s) gstart caps)"
  by pat_completeness auto
termination
  by (relation "measures [\<lambda>(prog, s, pos, gstart, caps). length s,
                          \<lambda>(prog, s, pos, gstart, caps). length prog]")
     (auto simp add: accepts_drop_less)

declare matchHere.simps(4,5,6) [simp del]

text \<open>The leftmost match: the first offset, rune by rune, at which the pattern matches.\<close>

function findFrom ::
  "inst list \<Rightarrow> string \<Rightarrow> nat \<Rightarrow> (nat \<times> nat \<times> (nat \<times> nat) list) option"
where
  "findFrom prog s pos =
     (case matchHere prog s pos pos [] of
        Some m \<Rightarrow> Some (pos, m)
      | None \<Rightarrow>
          if s = [] then None
          else findFrom prog (drop (snd (decodeRune s)) s) (pos + snd (decodeRune s)))"
  by pat_completeness auto
termination
  by (relation "measure (\<lambda>(prog, s, pos). length s)") (auto simp add: decodeRune_drop_less)

declare findFrom.simps [simp del]

text \<open>The Go slice expression \<open>s[b:e]\<close>.\<close>

definition slice :: "string \<Rightarrow> nat \<Rightarrow> nat \<Rightarrow> string" where
  "slice s b e = take (e - b) (drop b s)"

text \<open>
  \<open>regexp.MustCompile(pattern).FindStringSubmatch(s)\<close>: \<open>nil\<close> (the empty list) without
  a match, otherwise the text of the leftmost match followed by the text of each group.
\<close>

definition FindStringSubmatch :: "string \<Rightarrow> string \<Rightarrow> string list" where
  "FindStringSubmatch pattern s =
     (case findFrom (compile pattern) s 0 of
        None \<Rightarrow> []
      | Some (b, e, caps) \<Rightarrow> slice s b e # map (\<lambda>(x, y). slice s x y) caps)"

section \<open>The serial connection, the lock and the channel\<close>

text \<open>
  A \<open>float64\<close> is its IEEE 754 bit pattern. \<open>x != 0.0\<close> holds for every pattern but
  the two zeros \<open>+0\<close> and \<open>-0\<close>, that is when a bit other than the sign is set (a NaN
  differs from zero).
\<close>

type_synonym float64 = "64 word"

definition neZero :: "float64 \<Rightarrow> bool" where
  "neZero x = (x AND 0x7FFFFFFFFFFFFFFF \<noteq> 0)"

text \<open>
  \<open>strconv.ParseFloat(s, 64)\<close> is a parameter of the model: \<open>Some\<close> of the value when
  its error is \<open>nil\<close>, \<open>None\<close> otherwise.
\<close>

type_synonym ParseFloat = "string \<Rightarrow> float64 option"

text \<open>The errors of the two wired drivers, one constructor for each message.\<close>

datatype error =
    FailedToExecuteCommand
  | SensorNotFound
  | FailedToWriteCommand
  | FailedToReadInfoResponse
  | FailedToReadResponse
  | InvalidResponseFormat
  | FailedToParseCO2FromResponse
  | FailedToParseCO2Value
  | FailedToParseFlowRate

text \<open>
  What a driver does to the world outside it, in order: it takes and releases the
  session lock, writes bytes to the serial connection, reads a line from it, sleeps for
  a duration (nanoseconds, as \<open>time.Duration\<close>), and sends a measurement on its
  unbuffered channel.
\<close>

datatype event = Lock | Unlock | Write string | ReadString | Sleep int | Send float64

text \<open>
  The world of one sensor. The device is a script: \<open>writeOk n\<close> tells whether the
  \<open>n\<close>-th \<open>Write\<close> on the connection returns a \<open>nil\<close> error, \<open>lineOf n\<close> is what the
  \<open>n\<close>-th \<open>ReadString('\n')\<close> returns (\<open>None\<close> for an error). \<open>writes\<close> and \<open>reads\<close>
  count the calls made, \<open>events\<close> records what the driver has done, oldest first.
\<close>

record world =
  writeOk :: "nat \<Rightarrow> bool"
  lineOf :: "nat \<Rightarrow> string option"
  writes :: nat
  reads :: nat
  events :: "event list"

definition emit :: "event \<Rightarrow> world \<Rightarrow> world" where
  "emit e w = w\<lparr>events := events w @ [e]\<rparr>"

text \<open>\<open>serialConn.Write(b)\<close>; the result is whether the error is \<open>nil\<close>.\<close>

definition portWrite :: "string \<Rightarrow> world \<Rightarrow> bool \<times> world" where
  "portWrite b w = (writeOk w (writes w), emit (Write b) (w\<lparr>writes := Suc (writes w)\<rparr>))"

text \<open>\<open>bufio.NewReader(serialConn).ReadString('\n')\<close>.\<close>

definition readString :: "world \<Rightarrow> string option \<times> world" where
  "readString w = (lineOf w (reads w), emit ReadString (w\<lparr>reads := Suc (reads w)\<rparr>))"

text \<open>\<open>time.Second\<close>.\<close>

definition Second :: int where
  "Second = 1000000000"

definition bsl :: string where
  "bsl = [CHR 0x5C]"

definition CRLF :: string where
  "CRLF = [CHR 0x0D, CHR 0x0A]"

section \<open>The CO2 probe (package \<open>vaisala\<close>)\<close>

text \<open>The package variables, as \<open>init\<close> sets them; \<open>bsl\<close> is the backslash of a pattern.\<close>

definition vaisalaBaudRate :: int where
  "vaisalaBaudRate = 19200"

definition vaisalaDefaultAddress :: int where
  "vaisalaDefaultAddress = 240"

definition vaisalaDefaultPortFormat :: string where
  "vaisalaDefaultPortFormat = ''/dev/%s''"

definition vaisalaDataBits :: int where
  "vaisalaDataBits = 8"

definition vaisalaRegexSensorModel :: string where
  "vaisalaRegexSensorModel = ''Device'' @ bsl @ ''s+:'' @ bsl @ ''s+('' @ bsl @ ''w+)''"

definition vaisalaRegexSensorSerialNumber :: string where
  "vaisalaRegexSensorSerialNumber = ''SNUM'' @ bsl @ ''s+:'' @ bsl @ ''s+('' @ bsl @ ''w+)''"

definition vaisalaRegexSensorSoftwareVersion :: string where
  "vaisalaRegexSensorSoftwareVersion = ''SW'' @ bsl @ ''s+:'' @ bsl @ ''s+('' @ bsl @ ''w+)''"

definition vaisalaRegexSensorSerialUSBPrefix :: string where
  "vaisalaRegexSensorSerialUSBPrefix =
     ''usb-Silicon_Labs_Vaisala_USB.*->.*ttyUSB'' @ bsl @ ''d+''"

text \<open>
  The fields of \<open>VaisalaSensor\<close> that hold data; the connection, the lock and the
  channel are the sensor's \<open>world\<close>.
\<close>

record VaisalaSensor =
  vs_baudRate :: int
  vs_dataBits :: int
  vs_defaultAddress :: int
  vs_sensorModel :: string
  vs_sensorSerialNumber :: string
  vs_sensorSoftwareVersion :: string

definition newVaisalaSensor :: "int \<Rightarrow> int \<Rightarrow> VaisalaSensor" where
  "newVaisalaSensor baudRate defaultAddress =
     \<lparr> vs_baudRate = vaisalaBaudRate,
       vs_dataBits = vaisalaDataBits,
       vs_defaultAddress = defaultAddress,
       vs_sensorModel = [],
       vs_sensorSerialNumber = [],
       vs_sensorSoftwareVersion = [] \<rparr>"

text \<open>
  \<open>searchPorts\<close>, given what the listing command returned: \<open>None\<close> when running it
  failed, otherwise its output.
\<close>

definition vaisala_searchPorts :: "string option \<Rightarrow> error + string" where
  "vaisala_searchPorts out =
     (case out of
        None \<Rightarrow> Inl FailedToExecuteCommand
      | Some output \<Rightarrow>
          (let match = FindStringSubmatch vaisalaRegexSensorSerialUSBPrefix output in
           if length match = 0 then Inl SensorNotFound
           else
             let parts = Fields (match ! 0) in
             if length parts > 0 then
               (let sensorPath = parts ! (length parts - 1) in
                if Contains sensorPath (CHR ''/'') then
                  Inr (Sprintf vaisalaDefaultPortFormat
                         (Split sensorPath (CHR ''/'')
                            ! (length (Split sensorPath (CHR ''/'')) - 1)))
                else Inl SensorNotFound)
             else Inl SensorNotFound))"

definition vaisala_writeCommand :: "string \<Rightarrow> world \<Rightarrow> error option \<times> world" where
  "vaisala_writeCommand command w =
     (case portWrite (command @ CRLF) w of
        (ok, w') \<Rightarrow> (if ok then None else Some FailedToWriteCommand, w'))"

definition collectProbeInfo ::
  "VaisalaSensor \<Rightarrow> world \<Rightarrow> error option \<times> VaisalaSensor \<times> world" where
  "collectProbeInfo vs w =
     (case vaisala_writeCommand ''?'' w of
        (Some err, w1) \<Rightarrow> (Some err, vs, w1)
      | (None, w1) \<Rightarrow>
          (case readString w1 of
             (None, w2) \<Rightarrow> (Some FailedToReadInfoResponse, vs, w2)
           | (Some response, w2) \<Rightarrow>
               (let sensorModel = FindStringSubmatch vaisalaRegexSensorModel response;
                    vs1 = (if length sensorModel > 1
                           then vs\<lparr>vs_sensorModel := sensorModel ! 1\<rparr> else vs);
                    sensorSerialNumber =
                      FindStringSubmatch vaisalaRegexSensorSerialNumber response;
                    vs2 = (if length sensorSerialNumber > 1
                           then vs1\<lparr>vs_sensorSerialNumber := sensorSerialNumber ! 1\<rparr>
                           else vs1);
                    sensorSoftwareVersion =
                      FindStringSubmatch vaisalaRegexSensorSoftwareVersion response;
                    vs3 = (if length sensorSoftwareVersion > 1
                           then vs2\<lparr>vs_sensorSoftwareVersion := sensorSoftwareVersion ! 1\<rparr>
                           else vs2)
                in (None, vs3, w2))))"

text \<open>\<open>readCO2\<close>; the deferred \<open>Unlock\<close> runs at each return.\<close>

definition readCO2 :: "ParseFloat \<Rightarrow> world \<Rightarrow> (error + float64) \<times> world" where
  "readCO2 pf w =
     (case vaisala_writeCommand ''send'' (emit Lock w) of
        (Some err, w1) \<Rightarrow> (Inl err, emit Unlock w1)
      | (None, w1) \<Rightarrow>
          (case readString w1 of
             (None, w2) \<Rightarrow> (Inl FailedToReadResponse, emit Unlock w2)
           | (Some response, w2) \<Rightarrow>
               (let parts = Split response (CHR ''='') in
                if length parts < 2 then (Inl InvalidResponseFormat, emit Unlock w2)
                else
                  let co2Value = TrimSpace (parts ! 1);
                      co2Parts = Fields co2Value
                  in if length co2Parts < 1
                     then (Inl FailedToParseCO2FromResponse, emit Unlock w2)
                     else (case pf (co2Parts ! 0) of
                             None \<Rightarrow> (Inl FailedToParseCO2Value, emit Unlock w2)
                           | Some co2 \<Rightarrow> (Inr co2, emit Unlock w2)))))"

text \<open>One turn of the body of the loop \<open>for { ... }\<close> of \<open>startVaisalaSensor\<close>.\<close>

definition vaisalaIteration :: "ParseFloat \<Rightarrow> world \<Rightarrow> world" where
  "vaisalaIteration pf w =
     (case readCO2 pf w of
        (Inl err, w') \<Rightarrow> emit (Sleep Second) w'
      | (Inr co2, w') \<Rightarrow> emit (Send co2) w')"

text \<open>
  \<open>startVaisalaSensor\<close>: the loop has no exit, so the function returns (\<open>Some ()\<close>)
  only if the recursion ends.
\<close>

partial_function (option) startVaisalaSensor :: "ParseFloat \<Rightarrow> world \<Rightarrow> unit option" where
  "startVaisalaSensor pf w = startVaisalaSensor pf (vaisalaIteration pf w)"

section \<open>The flow meter (package \<open>kurz\<close>)\<close>

definition kurzBaudRate :: int where
  "kurzBaudRate = 9600"

definition kurzDataBits :: int where
  "kurzDataBits = 8"

definition kurzRegexSensorSerialUSBPrefix :: string where
  "kurzRegexSensorSerialUSBPrefix = ''usb-FTDI_.*_USB.*->.*ttyUSB'' @ bsl @ ''d+''"

definition kurzDefaultPortFormat :: string where
  "kurzDefaultPortFormat = ''/dev/%s''"

definition kurzRegexSensorModel :: string where
  "kurzRegexSensorModel = ''Device'' @ bsl @ ''s*:'' @ bsl @ ''s*'' @ bsl @ ''w*''"

definition kurzRegexSensorSerialNumber :: string where
  "kurzRegexSensorSerialNumber = ''SNUM'' @ bsl @ ''s*:'' @ bsl @ ''s*'' @ bsl @ ''w*''"

definition kurzRegexSensorSoftwareVersion :: string where
  "kurzRegexSensorSoftwareVersion =
     ''SW version'' @ bsl @ ''s*:'' @ bsl @ ''s*'' @ bsl @ ''d.'' @ bsl @ ''d.'' @ bsl @ ''d''"

record KurzSensor =
  ks_baudRate :: int
  ks_dataBits :: int
  ks_sensorModel :: string
  ks_sensorSerialNumber :: string
  ks_sensorSoftwareVersion :: string
  ks_constantFlowRateSCFM :: float64

text \<open>
  \<open>newKurzSensor\<close>; \<open>Getenv\<close> is \<open>os.Getenv\<close>, which gives the empty string for a
  variable that is not set.
\<close>

definition newKurzSensor :: "ParseFloat \<Rightarrow> (string \<Rightarrow> string) \<Rightarrow> int \<Rightarrow> KurzSensor" where
  "newKurzSensor pf Getenv baudRate =
     (let val = Getenv ''CONSTANT_FLOW_RATE_SCFM'';
          constantFlowRateSCFM =
            (if val \<noteq> [] then (case pf val of Some rate \<Rightarrow> rate | None \<Rightarrow> 0) else 0)
      in \<lparr> ks_baudRate = baudRate,
           ks_dataBits = kurzDataBits,
           ks_sensorModel = [],
           ks_sensorSerialNumber = [],
           ks_sensorSoftwareVersion = [],
           ks_constantFlowRateSCFM = constantFlowRateSCFM \<rparr>)"

definition kurz_searchPorts :: "string option \<Rightarrow> error + string" where
  "kurz_searchPorts out =
     (case out of
        None \<Rightarrow> Inl FailedToExecuteCommand
      | Some output \<Rightarrow>
          (let match = FindStringSubmatch kurzRegexSensorSerialUSBPrefix output in
           if length match = 0 then Inl SensorNotFound
           else
             let parts = Fields (match ! 0) in
             if length parts > 0 then
               (let sensorPath = parts ! (length parts - 1) in
                if Contains sensorPath (CHR ''/'') then
                  Inr (Sprintf kurzDefaultPortFormat
                         (Split sensorPath (CHR ''/'')
                            ! (length (Split sensorPath (CHR ''/'')) - 1)))
                else Inl SensorNotFound)
             else Inl SensorNotFound))"

definition kurz_writeCommand :: "string \<Rightarrow> world \<Rightarrow> error option \<times> world" where
  "kurz_writeCommand command w =
     (case portWrite command w of
        (ok, w') \<Rightarrow> (if ok then None else Some FailedToWriteCommand, w'))"

definition collectSensorInfo ::
  "KurzSensor \<Rightarrow> world \<Rightarrow> error option \<times> KurzSensor \<times> world" where
  "collectSensorInfo ks w =
     (case kurz_writeCommand ''?'' w of
        (Some err, w1) \<Rightarrow> (Some err, ks, w1)
      | (None, w1) \<Rightarrow>
          (case readString w1 of
             (None, w2) \<Rightarrow> (Some FailedToReadInfoResponse, ks, w2)
           | (Some response, w2) \<Rightarrow>
               (let sensorModel = FindStringSubmatch kurzRegexSensorModel response;
                    ks1 = (if length sensorModel > 1
                           then ks\<lparr>ks_sensorModel := sensorModel ! 1\<rparr> else ks);
                    sensorSerialNumber =
                      FindStringSubmatch kurzRegexSensorSerialNumber response;
                    ks2 = (if length sensorSerialNumber > 1
                           then ks1\<lparr>ks_sensorSerialNumber := sensorSerialNumber ! 1\<rparr>
                           else ks1);
                    sensorSoftwareVersion =
                      FindStringSubmatch kurzRegexSensorSoftwareVersion response;
                    ks3 = (if length sensorSoftwareVersion > 1
                           then ks2\<lparr>ks_sensorSoftwareVersion := sensorSoftwareVersion ! 1\<rparr>
                           else ks2)
                in (None, ks3, w2))))"

definition readFlowRate :: "ParseFloat \<Rightarrow> KurzSensor \<Rightarrow> world \<Rightarrow> (error + float64) \<times> world" where
  "readFlowRate pf ks w =
     (if neZero (ks_constantFlowRateSCFM ks) then (Inr (ks_constantFlowRateSCFM ks), w)
      else
        (case kurz_writeCommand ''x'' (emit Lock w) of
           (Some err, w1) \<Rightarrow> (Inl err, emit Unlock w1)
         | (None, w1) \<Rightarrow>
             (case readString w1 of
                (None, w2) \<Rightarrow> (Inl FailedToReadResponse, emit Unlock w2)
              | (Some response, w2) \<Rightarrow>
                  (let parts = Fields response in
                   if length parts < 4 then (Inl InvalidResponseFormat, emit Unlock w2)
                   else (case pf (parts ! 3) of
                           None \<Rightarrow> (Inl FailedToParseFlowRate, emit Unlock w2)
                         | Some flowRate \<Rightarrow> (Inr flowRate, emit Unlock w2))))))"

definition kurzIteration :: "ParseFloat \<Rightarrow> KurzSensor \<Rightarrow> world \<Rightarrow> world" where
  "kurzIteration pf ks w =
     (case readFlowRate pf ks w of
        (Inl err, w') \<Rightarrow> emit (Sleep Second) w'
      | (Inr flowRate, w') \<Rightarrow> emit (Send flowRate) w')"

partial_function (option) startKurzSensor ::
  "ParseFloat \<Rightarrow> KurzSensor \<Rightarrow> world \<Rightarrow> unit option" where
  "startKurzSensor pf ks w = startKurzSensor pf ks (kurzIteration pf ks w)"

section \<open>Polar heart-rate strap: the notification callback\<close>

text \<open>
  The callback installed by \<open>startPolarSensor\<close> receives one notification buffer
  (\<open>[]byte\<close>) and sends on two unbuffered channels, \<open>heartRateCh\<close> (\<open>chan uint8\<close>) and
  \<open>rrIntervalCh\<close> (\<open>chan []uint16\<close>). A send is recorded as an event, in the order in
  which the callback performs it; the \<open>nil\<close> slice is \<open>None\<close>.
\<close>

datatype polar_event = HeartRate "8 word" | RRInterval "16 word list option"

text \<open>How the callback ends: it returns, or an index out of range panics.\<close>

datatype outcome = Returned | Panicked

text \<open>
  \<open>binary.LittleEndian.Uint16(b)\<close> is \<open>uint16(b[0]) | uint16(b[1])<<8\<close>; it panics on a
  slice shorter than two bytes (\<open>None\<close>).
\<close>

definition leUint16 :: "8 word list \<Rightarrow> 16 word option" where
  "leUint16 b = (case b of
       b0 # b1 # _ \<Rightarrow> Some (ucast b0 OR push_bit 8 (ucast b1))
     | _ \<Rightarrow> None)"

text \<open>
  The loop \<open>for i := 2; i < len(buf); i += 2\<close> of the callback, started at any \<open>i\<close> with
  the intervals collected so far; \<open>buf[i:]\<close> is \<open>drop i buf\<close>.
\<close>

function rrLoop :: "8 word list \<Rightarrow> nat \<Rightarrow> 16 word list \<Rightarrow> 16 word list option" where
  "rrLoop buf i rrIntervals =
     (if i < length buf then
        (if i + 1 < length buf then
           (case leUint16 (drop i buf) of
              None \<Rightarrow> None
            | Some rrInterval \<Rightarrow> rrLoop buf (i + 2) (rrIntervals @ [rrInterval]))
         else rrLoop buf (i + 2) rrIntervals)
      else Some rrIntervals)"
  by pat_completeness auto
termination
  by (relation "measure (\<lambda>(buf, i, rrIntervals). length buf - i)") auto

definition notification :: "8 word list \<Rightarrow> polar_event list \<times> outcome" where
  "notification buf =
     (if length buf > 1 then
        (let heartRate = buf ! 1;
             flags = buf ! 0
         in if flags AND 0x10 \<noteq> 0 \<and> length buf \<ge> 4 then
              (case rrLoop buf 2 [] of
                 None \<Rightarrow> ([HeartRate heartRate], Panicked)
               | Some rrIntervals \<Rightarrow>
                   ([HeartRate heartRate, RRInterval (Some rrIntervals)], Returned))
            else ([HeartRate heartRate, RRInterval None], Returned))
      else ([], Returned))"

text \<open>
  The decoding as the specification words it: the bytes taken two at a time, low byte
  first, a last byte without a partner dropped.
\<close>

fun pairsLE :: "8 word list \<Rightarrow> 16 word list" where
  "pairsLE (lo # hi # rest) = (ucast lo OR push_bit 8 (ucast hi)) # pairsLE rest"
| "pairsLE _ = []"

section \<open>The vocabulary of the specification\<close>

text \<open>
  The definitions of this section follow the words of the specification, not the code:
  the theorems below compare the drivers with them.
\<close>

definition notSep :: "char \<Rightarrow> char \<Rightarrow> bool" where
  "notSep sep c = (c \<noteq> sep)"

text \<open>The second segment of a line split on \<open>=\<close>: from after the first \<open>=\<close> up to the next.\<close>

definition secondSegment :: "string \<Rightarrow> string" where
  "secondSegment s =
     takeWhile (notSep (CHR ''='')) (tl (dropWhile (notSep (CHR ''='')) s))"

text \<open>
  CO2 parsing: a line without \<open>=\<close> has fewer than two segments; otherwise the first
  white-space-delimited token of the trimmed second segment is parsed as a float.
\<close>

definition co2OfLine :: "ParseFloat \<Rightarrow> string \<Rightarrow> error + float64" where
  "co2OfLine pf line =
     (if CHR ''='' \<notin> set line then Inl InvalidResponseFormat
      else (case Fields (TrimSpace (secondSegment line)) of
              [] \<Rightarrow> Inl FailedToParseCO2FromResponse
            | token # _ \<Rightarrow>
                (case pf token of
                   None \<Rightarrow> Inl FailedToParseCO2Value
                 | Some v \<Rightarrow> Inr v)))"

text \<open>Flow-rate parsing: the fourth white-space-delimited token of the whole line.\<close>

definition flowOfLine :: "ParseFloat \<Rightarrow> string \<Rightarrow> error + float64" where
  "flowOfLine pf line =
     (case drop 3 (Fields line) of
        [] \<Rightarrow> Inl InvalidResponseFormat
      | token # _ \<Rightarrow>
          (case pf token of
             None \<Rightarrow> Inl FailedToParseFlowRate
           | Some v \<Rightarrow> Inr v))"

text \<open>The first match of a pattern in a text, if there is one.\<close>

definition firstMatch :: "string \<Rightarrow> string \<Rightarrow> string option" where
  "firstMatch pattern s =
     (case findFrom (compile pattern) s 0 of
        None \<Rightarrow> None
      | Some (b, e, caps) \<Rightarrow> Some (slice s b e))"

text \<open>The final path segment of a token: what follows its last \<open>/\<close>.\<close>

definition lastSegment :: "string \<Rightarrow> string" where
  "lastSegment s = rev (takeWhile (notSep (CHR ''/'')) (rev s))"

text \<open>
  The locator of a matched listing line: the last white-space-delimited token of the
  match, if it contains a \<open>/\<close>, gives its final path segment to the template
  \<open>/dev/%s\<close>; a token without \<open>/\<close> is not found.
\<close>

definition locatorOf :: "string \<Rightarrow> error + string" where
  "locatorOf m =
     (if CHR ''/'' \<in> set (last (Fields m))
      then Inr (''/dev/'' @ lastSegment (last (Fields m)))
      else Inl SensorNotFound)"

text \<open>
  The text a pattern captures in a line: the first group of the first match, when the
  pattern matches and has a group.
\<close>

definition captured :: "string \<Rightarrow> string \<Rightarrow> string option" where
  "captured pattern line =
     (case FindStringSubmatch pattern line of
        whole # sub # _ \<Rightarrow> Some sub
      | _ \<Rightarrow> None)"

text \<open>A metadata field after the handshake: the captured text, or the value it had.\<close>

definition fieldAfter :: "string option \<Rightarrow> string \<Rightarrow> string" where
  "fieldAfter cap old = (case cap of Some sub \<Rightarrow> sub | None \<Rightarrow> old)"

text \<open>The number of capture groups of a compiled pattern.\<close>

definition closes :: "inst list \<Rightarrow> nat" where
  "closes prog = length (filter (\<lambda>i. i = CapClose) prog)"

text \<open>A caller that reads the flow rate \<open>n\<close> times in a row, collecting what it gets.\<close>

fun readFlowRateTimes ::
  "nat \<Rightarrow> ParseFloat \<Rightarrow> KurzSensor \<Rightarrow> world \<Rightarrow> (error + float64) list \<times> world" where
  "readFlowRateTimes 0 pf ks w = ([], w)"
| "readFlowRateTimes (Suc n) pf ks w =
     (fst (readFlowRate pf ks w)
        # fst (readFlowRateTimes n pf ks (snd (readFlowRate pf ks w))),
      snd (readFlowRateTimes n pf ks (snd (readFlowRate pf ks w))))"

subsection \<open>Examples\<close>

text \<open>
  A device whose every write succeeds or fails as \<open>ok\<close> says and whose every read
  returns \<open>line\<close>, before the driver has touched it.
\<close>

definition device :: "bool \<Rightarrow> string option \<Rightarrow> world" where
  "device ok line =
     \<lparr> writeOk = (\<lambda>n. ok), lineOf = (\<lambda>n. line), writes = 0, reads = 0, events = [] \<rparr>"

text \<open>\<open>strconv.ParseFloat\<close> on the tokens of the examples: 412.35, 123.45 and 2.5.\<close>

definition exampleParseFloat :: ParseFloat where
  "exampleParseFloat s =
     (if s = ''412.35'' then Some 0x4079C5999999999A
      else if s = ''123.45'' then Some 0x405EDCCCCCCCCCCD
      else if s = ''2.5'' then Some 0x4004000000000000
      else None)"

definition exampleEnv :: "string \<Rightarrow> string" where
  "exampleEnv name = (if name = ''CONSTANT_FLOW_RATE_SCFM'' then ''2.5'' else [])"

text \<open>The listing of the comment in \<open>searchPorts\<close>, and one whose link has no directory.\<close>

definition exampleListing :: string where
  "exampleListing =
     ''total 0'' @ [CHR 0x0A]
     @ ''lrwxrwxrwx 1 root root 13 Jun  5 22:17 ''
     @ ''usb-Silicon_Labs_Vaisala_USB_Instrument_Cable_R3234317-if00-port0 -> ../../ttyUSB0''
     @ [CHR 0x0A]"

definition exampleListingFlat :: string where
  "exampleListingFlat =
     ''total 0'' @ [CHR 0x0A]
     @ ''lrwxrwxrwx 1 root root 13 Jun  5 22:17 ''
     @ ''usb-FTDI_FT232R_USB_UART_A50285BI-if00-port0 -> ttyUSB1''
     @ [CHR 0x0A]"

section \<open>Facts about the library functions\<close>


lemma splitFrom_unfold:
  "splitFrom sep piece s =
     (piece @ takeWhile (notSep sep) s)
       # (case dropWhile (notSep sep) s of [] \<Rightarrow> [] | c # r \<Rightarrow> splitFrom sep [] r)"
  by (induction s arbitrary: piece) (simp_all add: notSep_def)

lemma splitFrom_nonempty: "splitFrom sep piece s \<noteq> []"
  by (subst splitFrom_unfold) simp

lemma dropWhile_notSep_Nil: "dropWhile (notSep sep) s = [] \<longleftrightarrow> sep \<notin> set s"
  by (induction s) (auto simp add: notSep_def)

lemma Split_short: "length (Split s sep) < 2 \<longleftrightarrow> sep \<notin> set s"
proof (cases "dropWhile (notSep sep) s")
  case Nil
  have "Split s sep = [takeWhile (notSep sep) s]"
    unfolding Split_def by (subst splitFrom_unfold) (simp only: Nil list.case append_Nil)
  with Nil show ?thesis using dropWhile_notSep_Nil [of sep s] by simp
next
  case (Cons c r)
  have "Split s sep = takeWhile (notSep sep) s # splitFrom sep [] r"
    unfolding Split_def by (subst splitFrom_unfold) (simp only: Cons list.case append_Nil)
  moreover have "0 < length (splitFrom sep [] r)"
    using splitFrom_nonempty [of sep "[]" r] by simp
  ultimately show ?thesis using Cons dropWhile_notSep_Nil [of sep s] by simp
qed

lemma Split_second:
  assumes "sep \<in> set s"
  shows "Split s sep ! 1 = takeWhile (notSep sep) (tl (dropWhile (notSep sep) s))"
proof -
  from assms obtain c r where d: "dropWhile (notSep sep) s = c # r"
    using dropWhile_notSep_Nil [of sep s] by (cases "dropWhile (notSep sep) s") auto
  have "Split s sep = takeWhile (notSep sep) s # splitFrom sep [] r"
    unfolding Split_def by (subst splitFrom_unfold) (simp only: d list.case append_Nil)
  also have "splitFrom sep [] r = takeWhile (notSep sep) r
      # (case dropWhile (notSep sep) r of [] \<Rightarrow> [] | c # r' \<Rightarrow> splitFrom sep [] r')"
    by (subst splitFrom_unfold) simp
  finally show ?thesis by (simp add: d)
qed

lemma splitFrom_last:
  "last (splitFrom sep piece s) =
     (if sep \<in> set s then rev (takeWhile (notSep sep) (rev s)) else piece @ s)"
proof (induction s arbitrary: piece)
  case Nil
  show ?case by simp
next
  case (Cons c s)
  show ?case
  proof (cases "c = sep")
    case True
    have "rev (takeWhile (notSep sep) (rev s @ [sep]))
            = (if sep \<in> set s then rev (takeWhile (notSep sep) (rev s)) else s)"
      by (auto simp add: takeWhile_append notSep_def takeWhile_eq_all_conv)
    with True Cons.IH [of "[]"] show ?thesis
      by (simp add: splitFrom_nonempty)
  next
    case False
    have "sep \<in> set s \<Longrightarrow> takeWhile (notSep sep) (rev s @ [c]) = takeWhile (notSep sep) (rev s)"
      by (auto simp add: takeWhile_append notSep_def)
    with False Cons.IH [of "piece @ [c]"] show ?thesis
      by auto
  qed
qed

lemma Split_last:
  "sep \<in> set s \<Longrightarrow>
   Split s sep ! (length (Split s sep) - 1) = rev (takeWhile (notSep sep) (rev s))"
  using splitFrom_last [of sep "[]" s] splitFrom_nonempty [of sep "[]" s]
  by (simp add: Split_def last_conv_nth)

lemma Sprintf_dev: "Sprintf ''/dev/%s'' a = ''/dev/'' @ a"
  by simp


lemma byteAt_range: "0 \<le> byteAt s i \<and> byteAt s i < 256"
proof -
  have "(of_char (s ! i) :: nat) < 256" by simp
  then have "int (of_char (s ! i)) < 256" by linarith
  moreover have "byteAt s i = int (of_char (s ! i))"
    unfolding byteAt_def by (simp add: of_char_def)
  ultimately show ?thesis by simp
qed

lemma seq2_ge: "(0xC2::int) \<le> a \<Longrightarrow> a < 0xE0 \<Longrightarrow> 0 \<le> b \<Longrightarrow> 0x80 \<le> (a mod 0x20) * 0x40 + b mod 0x40"
proof -
  assume a: "(0xC2::int) \<le> a" "a < 0xE0" and b: "0 \<le> b"
  from a have "2 \<le> a mod 0x20" by presburger
  moreover have "0 \<le> b mod 0x40" by simp
  ultimately show ?thesis by linarith
qed

lemma seq3_ge:
  assumes "(0xE0::int) \<le> a" "a < 0xF0" "(if a = 0xE0 then 0xA0 else 0x80) \<le> b" "b \<le> 0xBF"
  shows "0x80 \<le> (a mod 0x10) * 0x1000 + (b mod 0x40) * 0x40 + c mod 0x40"
proof (cases "a = 0xE0")
  case True
  with assms have "0x20 \<le> b mod 0x40" by presburger
  moreover have "0 \<le> c mod 0x40" by simp
  moreover from True have "a mod 0x10 = 0" by simp
  ultimately show ?thesis by linarith
next
  case False
  with assms have "1 \<le> a mod 0x10" by presburger
  moreover have "0 \<le> c mod 0x40" "0 \<le> b mod 0x40" by simp_all
  ultimately show ?thesis by linarith
qed

lemma seq4_ge:
  assumes "(0xF0::int) \<le> a" "a \<le> 0xF4" "(if a = 0xF0 then 0x90 else 0x80) \<le> b" "b \<le> 0xBF"
  shows "0x80 \<le> (a mod 0x08) * 0x40000 + (b mod 0x40) * 0x1000 + (c mod 0x40) * 0x40 + d mod 0x40"
proof (cases "a = 0xF0")
  case True
  with assms have "0x10 \<le> b mod 0x40" by presburger
  moreover have "0 \<le> c mod 0x40" "0 \<le> d mod 0x40" by simp_all
  moreover from True have "a mod 0x08 = 0" by simp
  ultimately show ?thesis by linarith
next
  case False
  with assms have "1 \<le> a mod 0x08" by presburger
  moreover have "0 \<le> c mod 0x40" "0 \<le> b mod 0x40" "0 \<le> d mod 0x40" by simp_all
  ultimately show ?thesis by linarith
qed

lemma validSeq_rune_ge: 
  assumes "validSeq s"
  shows "0x80 \<le> seqRune s"
proof -
  define a where "a = byteAt s 0"
  define b where "b = byteAt s 1"
  from assms have lead: "0xC2 \<le> a" "a \<le> 0xF4" and lo: "acceptLo a \<le> b" and hi: "b \<le> acceptHi a"
    unfolding validSeq_def Let_def a_def b_def by simp_all
  have b0: "0 \<le> b" unfolding b_def using byteAt_range by simp
  have hi': "b \<le> 0xBF" using hi unfolding acceptHi_def by (simp split: if_splits)
  consider "a < 0xE0" | "0xE0 \<le> a" "a < 0xF0" | "0xF0 \<le> a" by linarith
  then show ?thesis
  proof cases
    case 1
    then have "seqRune s = (a mod 0x20) * 0x40 + b mod 0x40"
      unfolding seqRune_def Let_def seqLen_def a_def b_def by simp
    with seq2_ge [OF lead(1) 1 b0] show ?thesis by simp
  next
    case 2
    then have eq: "seqRune s = (a mod 0x10) * 0x1000 + (b mod 0x40) * 0x40 + byteAt s 2 mod 0x40"
      unfolding seqRune_def Let_def seqLen_def a_def b_def by simp
    from lo 2 have "(if a = 0xE0 then 0xA0 else 0x80) \<le> b"
      unfolding acceptLo_def by (simp split: if_splits)
    from seq3_ge [OF 2 this hi'] eq show ?thesis by simp
  next
    case 3
    then have eq: "seqRune s = (a mod 0x08) * 0x40000 + (b mod 0x40) * 0x1000
                     + (byteAt s 2 mod 0x40) * 0x40 + byteAt s 3 mod 0x40"
      unfolding seqRune_def Let_def seqLen_def a_def b_def by simp
    from lo 3 have "(if a = 0xF0 then 0x90 else 0x80) \<le> b"
      unfolding acceptLo_def by (simp split: if_splits)
    from seq4_ge [OF 3 lead(2) this hi'] eq show ?thesis by simp
  qed
qed

lemma decodeRune_ascii:
  assumes "s \<noteq> []" "fst (decodeRune s) < 0x80"
  shows "decodeRune s = (byteAt s 0, 1)"
proof (cases "byteAt s 0 < 0x80")
  case True
  with assms(1) show ?thesis by (simp add: decodeRune_def)
next
  case False
  show ?thesis
  proof (cases "validSeq s")
    case True
    with False assms(1) have "fst (decodeRune s) = seqRune s" by (simp add: decodeRune_def)
    with validSeq_rune_ge [OF True] assms(2) show ?thesis by simp
  next
    case v: False
    with False assms(1) have "fst (decodeRune s) = RuneError" by (simp add: decodeRune_def)
    with assms(2) show ?thesis by (simp add: RuneError_def)
  qed
qed

lemma of_char_int_inj: "(of_char a :: int) = of_char b \<Longrightarrow> a = b"
proof -
  assume "(of_char a :: int) = of_char b"
  then have "int (of_char a) = int (of_char b)" by (simp add: of_char_def)
  then have "(of_char a :: nat) = of_char b" by simp
  then show ?thesis by simp
qed

lemma accepts_Lit:
  assumes "accepts (Lit c) s \<noteq> 0" "(of_char c :: int) < 0x80"
  shows "\<exists>t. s = c # t"
proof -
  from assms(1) have ne: "s \<noteq> []" and r: "fst (decodeRune s) = of_char c"
    by (auto simp add: accepts_def classHas_def split: if_splits)
  from r assms(2) have "fst (decodeRune s) < 0x80" by simp
  from decodeRune_ascii [OF ne this] have "decodeRune s = (byteAt s 0, 1)" .
  with r have "byteAt s 0 = of_char c" by simp
  then have "s ! 0 = c" unfolding byteAt_def by (rule of_char_int_inj)
  with ne show ?thesis by (cases s) simp_all
qed

lemma accepts_le: "accepts c s \<le> length s"
  by (simp add: accepts_def decodeRune_size_le)

lemma matchHere_Rune1:
  "matchHere (Rune1 c # prog) s pos g caps = Some m \<Longrightarrow>
   accepts c s \<noteq> 0
   \<and> matchHere prog (drop (accepts c s) s) (pos + accepts c s) g caps = Some m"
  by (cases "accepts c s = 0") (simp_all del: matchHere.simps add: matchHere.simps(4))

lemma matchHere_Plus:
  "matchHere (Plus c # prog) s pos g caps = Some m \<Longrightarrow>
   accepts c s \<noteq> 0
   \<and> matchHere (Star c # prog) (drop (accepts c s) s) (pos + accepts c s) g caps = Some m"
  by (cases "accepts c s = 0") (simp_all del: matchHere.simps add: matchHere.simps(6))

lemma matchHere_Star:
  "matchHere (Star c # prog) s pos g caps = Some m \<Longrightarrow>
   (accepts c s \<noteq> 0
     \<and> matchHere (Star c # prog) (drop (accepts c s) s) (pos + accepts c s) g caps = Some m)
   \<or> (accepts c s \<noteq> 0
     \<and> matchHere (Star c # prog) (drop (accepts c s) s) (pos + accepts c s) g caps = None
     \<and> matchHere prog s pos g caps = Some m)
   \<or> (accepts c s = 0 \<and> matchHere prog s pos g caps = Some m)"
proof -
  assume a: "matchHere (Star c # prog) s pos g caps = Some m"
  show ?thesis
  proof (cases "accepts c s = 0")
    case True
    with a show ?thesis by (simp del: matchHere.simps add: matchHere.simps(5) [of c prog s])
  next
    case False
    show ?thesis
    proof (cases "matchHere (Star c # prog) (drop (accepts c s) s) (pos + accepts c s) g caps")
      case None
      with a False show ?thesis
        by (simp del: matchHere.simps add: matchHere.simps(5) [of c prog s])
    next
      case (Some m')
      with a False have "m' = m"
        by (simp del: matchHere.simps add: matchHere.simps(5) [of c prog s])
      with Some False show ?thesis by simp
    qed
  qed
qed

lemma drop_accepts_length: "length (drop (accepts c s) s) + accepts c s = length s"
  using accepts_le [of c s] by simp

lemma matchHere_span:
  "matchHere prog s pos g caps = Some (e, caps') \<Longrightarrow> pos \<le> e \<and> e \<le> pos + length s"
proof (induction prog s pos g caps rule: matchHere.induct)
  case (1 s pos gstart caps)
  then show ?case by simp
next
  case (2 prog s pos gstart caps)
  then show ?case by simp
next
  case (3 prog s pos gstart caps)
  then show ?case by simp
next
  case (4 c prog s pos gstart caps)
  from matchHere_Rune1 [OF "4.prems"] "4.IH" drop_accepts_length [of c s]
  show ?case by (simp del: matchHere.simps)
next
  case (5 c prog s pos gstart caps)
  from matchHere_Star [OF "5.prems"] "5.IH" drop_accepts_length [of c s]
  show ?case by (auto simp del: matchHere.simps)
next
  case (6 c prog s pos gstart caps)
  from matchHere_Plus [OF "6.prems"] "6.IH" drop_accepts_length [of c s]
  show ?case by (simp del: matchHere.simps)
qed

lemma matchHere_caps:
  "matchHere prog s pos g caps = Some (e, caps') \<Longrightarrow> length caps' = length caps + closes prog"
proof (induction prog s pos g caps rule: matchHere.induct)
  case (1 s pos gstart caps)
  then show ?case by (simp add: closes_def)
next
  case (2 prog s pos gstart caps)
  then show ?case by (simp add: closes_def)
next
  case (3 prog s pos gstart caps)
  then show ?case by (simp add: closes_def)
next
  case (4 c prog s pos gstart caps)
  from matchHere_Rune1 [OF "4.prems"] "4.IH"
  show ?case by (simp del: matchHere.simps add: closes_def)
next
  case (5 c prog s pos gstart caps)
  from matchHere_Star [OF "5.prems"] "5.IH"
  show ?case by (auto simp del: matchHere.simps simp add: closes_def)
next
  case (6 c prog s pos gstart caps)
  from matchHere_Plus [OF "6.prems"] "6.IH"
  show ?case by (simp del: matchHere.simps add: closes_def)
qed

lemma findFrom_sound:
  "findFrom prog s pos = Some (b, e, caps) \<Longrightarrow>
   \<exists>k. b = pos + k \<and> k \<le> length s \<and> matchHere prog (drop k s) b b [] = Some (e, caps)"
proof (induction prog s pos rule: findFrom.induct)
  case (1 prog s pos)
  let ?w = "snd (decodeRune s)"
  from "1.prems" have u:
    "(case matchHere prog s pos pos [] of
        Some m \<Rightarrow> Some (pos, m)
      | None \<Rightarrow> if s = [] then None else findFrom prog (drop ?w s) (pos + ?w))
     = Some (b, e, caps)"
    by (subst (asm) findFrom.simps) 
  show ?case
  proof (cases "matchHere prog s pos pos []")
    case (Some m)
    with u have "b = pos" "m = (e, caps)"
      by (simp_all del: findFrom.simps matchHere.simps)
    with Some show ?thesis
      by (intro exI [of _ 0]) (simp del: findFrom.simps matchHere.simps)
  next
    case None
    with u have ne: "s \<noteq> []"
      by (cases "s = []") (simp_all del: findFrom.simps matchHere.simps)
    from None ne u have "findFrom prog (drop ?w s) (pos + ?w) = Some (b, e, caps)"
      by (simp del: findFrom.simps matchHere.simps)
    from "1.IH" [OF None ne this] obtain k where
      k: "b = pos + ?w + k" "k \<le> length (drop ?w s)"
         "matchHere prog (drop k (drop ?w s)) b b [] = Some (e, caps)"
      by auto
    have "?w \<le> length s" by (rule decodeRune_size_le)
    with k show ?thesis
      by (intro exI [of _ "?w + k"])
         (simp add: add.commute del: findFrom.simps matchHere.simps)
  qed
qed


lemma fieldsFrom_nonempty: "field \<noteq> [] \<Longrightarrow> fieldsFrom field s \<noteq> []"
proof (induction field s rule: fieldsFrom.induct)
  case (1 field s)
  show ?case
  proof (cases "s = []")
    case True
    with "1.prems" show ?thesis by (subst fieldsFrom.simps) simp
  next
    case False
    show ?thesis
    proof (cases "isSpace (fst (decodeRune s))")
      case True
      with False "1.prems" show ?thesis by (subst fieldsFrom.simps) simp
    next
      case ns: False
      have "field @ take (snd (decodeRune s)) s \<noteq> []" using "1.prems" by simp
      from "1.IH"(3) [OF False ns this] False ns show ?thesis
        by (subst fieldsFrom.simps) simp
    qed
  qed
qed

lemma Fields_ascii_head:
  assumes "(of_char c :: int) < 0x80" "\<not> isSpace (of_char c)"
  shows "Fields (c # t) \<noteq> []"
proof -
  from assms(1) have d: "decodeRune (c # t) = (of_char c, 1)"
    by (simp add: decodeRune_def byteAt_def)
  have "Fields (c # t) = fieldsFrom [c] t"
    unfolding Fields_def using assms(2) d by (subst fieldsFrom.simps) simp
  then show ?thesis using fieldsFrom_nonempty [of "[c]" t] by simp
qed

lemma FindStringSubmatch_None:
  "firstMatch pattern s = None \<Longrightarrow> FindStringSubmatch pattern s = []"
  by (auto simp add: firstMatch_def FindStringSubmatch_def split: option.splits)

lemma FindStringSubmatch_Some:
  "firstMatch pattern s = Some m \<Longrightarrow>
   length (FindStringSubmatch pattern s) \<noteq> 0 \<and> FindStringSubmatch pattern s ! 0 = m"
  by (auto simp add: firstMatch_def FindStringSubmatch_def split: option.splits)

lemma firstMatch_head:
  assumes "compile pattern = Rune1 (Lit c) # prog" "(of_char c :: int) < 0x80"
    and "firstMatch pattern s = Some m"
  shows "\<exists>t. m = c # t"
proof -
  from assms(3) obtain b e caps where
    f: "findFrom (compile pattern) s 0 = Some (b, e, caps)" and m: "m = slice s b e"
    by (auto simp add: firstMatch_def split: option.splits)
  from findFrom_sound [OF f] have
    mh: "matchHere (compile pattern) (drop b s) b b [] = Some (e, caps)"
    by auto
  from mh assms(1) have r: "matchHere (Rune1 (Lit c) # prog) (drop b s) b b [] = Some (e, caps)"
    by simp
  from matchHere_Rune1 [OF r] have acc: "accepts (Lit c) (drop b s) \<noteq> 0"
    and rest: "matchHere prog (drop (accepts (Lit c) (drop b s)) (drop b s))
                 (b + accepts (Lit c) (drop b s)) b [] = Some (e, caps)"
    by simp_all
  from accepts_Lit [OF acc assms(2)] obtain t where t: "drop b s = c # t" by auto
  from matchHere_span [OF rest] acc have "b < e" by simp
  then obtain n where "e - b = Suc n" by (cases "e - b") simp_all
  with t m show ?thesis by (simp add: slice_def)
qed

lemma compile_vaisala_prefix:
  "\<exists>prog. compile vaisalaRegexSensorSerialUSBPrefix = Rune1 (Lit (CHR ''u'')) # prog"
  by (simp add: vaisalaRegexSensorSerialUSBPrefix_def quantified_def)

lemma compile_kurz_prefix:
  "\<exists>prog. compile kurzRegexSensorSerialUSBPrefix = Rune1 (Lit (CHR ''u'')) # prog"
  by (simp add: kurzRegexSensorSerialUSBPrefix_def quantified_def)

lemma u_ascii: "(of_char (CHR ''u'') :: int) < 0x80" "\<not> isSpace (of_char (CHR ''u''))"
  by (simp_all add: isSpace_def)

lemma vaisala_match_fields:
  "firstMatch vaisalaRegexSensorSerialUSBPrefix s = Some m \<Longrightarrow> Fields m \<noteq> []"
  using compile_vaisala_prefix firstMatch_head [OF _ u_ascii(1)] Fields_ascii_head [OF u_ascii]
  by blast

lemma kurz_match_fields:
  "firstMatch kurzRegexSensorSerialUSBPrefix s = Some m \<Longrightarrow> Fields m \<noteq> []"
  using compile_kurz_prefix firstMatch_head [OF _ u_ascii(1)] Fields_ascii_head [OF u_ascii]
  by blast

lemma searchPorts_tail:
  assumes "Fields m \<noteq> []"
  shows "(if length (Fields m) > 0 then
            (if Contains (Fields m ! (length (Fields m) - 1)) (CHR ''/'') then
               Inr (Sprintf ''/dev/%s''
                      (Split (Fields m ! (length (Fields m) - 1)) (CHR ''/'')
                         ! (length (Split (Fields m ! (length (Fields m) - 1)) (CHR ''/'')) - 1)))
             else Inl SensorNotFound)
          else Inl SensorNotFound) = locatorOf m"
proof -
  from assms have l: "Fields m ! (length (Fields m) - 1) = last (Fields m)"
    by (simp add: last_conv_nth)
  from assms have p: "length (Fields m) > 0" by simp
  show ?thesis
  proof (cases "CHR ''/'' \<in> set (last (Fields m))")
    case True
    from Split_last [OF True] True p show ?thesis
      unfolding l locatorOf_def Contains_def lastSegment_def Sprintf_dev
      by (simp only: if_True)
  next
    case False
    with p show ?thesis
      unfolding l locatorOf_def Contains_def by (simp only: if_True if_False)
  qed
qed

lemma vaisala_searchPorts_match:
  assumes "firstMatch vaisalaRegexSensorSerialUSBPrefix output = Some m"
  shows "vaisala_searchPorts (Some output) = locatorOf m"
proof -
  from FindStringSubmatch_Some [OF assms] have
    l: "(length (FindStringSubmatch vaisalaRegexSensorSerialUSBPrefix output) = 0) = False"
    and z: "FindStringSubmatch vaisalaRegexSensorSerialUSBPrefix output ! 0 = m"
    by simp_all
  show ?thesis
    unfolding vaisala_searchPorts_def Let_def option.case vaisalaDefaultPortFormat_def z l if_False
    by (rule searchPorts_tail [OF vaisala_match_fields [OF assms]])
qed

lemma kurz_searchPorts_match:
  assumes "firstMatch kurzRegexSensorSerialUSBPrefix output = Some m"
  shows "kurz_searchPorts (Some output) = locatorOf m"
proof -
  from FindStringSubmatch_Some [OF assms] have
    l: "(length (FindStringSubmatch kurzRegexSensorSerialUSBPrefix output) = 0) = False"
    and z: "FindStringSubmatch kurzRegexSensorSerialUSBPrefix output ! 0 = m"
    by simp_all
  show ?thesis
    unfolding kurz_searchPorts_def Let_def option.case kurzDefaultPortFormat_def z l if_False
    by (rule searchPorts_tail [OF kurz_match_fields [OF assms]])
qed

section \<open>The notification callback decodes the frame\<close>

lemma rrLoop_pairs: "rrLoop buf i acc = Some (acc @ pairsLE (drop i buf))"
proof (induction buf i acc rule: rrLoop.induct)
  case (1 buf i acc)
  show ?case
  proof (cases "i + 1 < length buf")
    case True
    then obtain lo hi rest where d: "drop i buf = lo # hi # rest"
      by (metis Cons_nth_drop_Suc Suc_eq_plus1 add_lessD1)
    then have d2: "drop (i + 2) buf = rest"
      by (metis drop_drop add.commute drop_Suc_Cons drop0 numeral_2_eq_2)
    from True have "i < length buf" by simp
    with True d d2 "1.IH"(1)[of "ucast lo OR push_bit 8 (ucast hi)"] show ?thesis
      by (subst rrLoop.simps) (simp add: leUint16_def)
  next
    case False
    show ?thesis
    proof (cases "i < length buf")
      case True
      with False have len: "length buf = Suc i" by simp
      then obtain x where "drop i buf = [x]"
        by (metis Cons_nth_drop_Suc drop_all lessI order_refl)
      moreover have "drop (i + 2) buf = []" using len by simp
      ultimately show ?thesis using True False "1.IH"(2)
        by (subst rrLoop.simps) simp
    next
      case False
      then show ?thesis by (subst rrLoop.simps) simp
    qed
  qed
qed

lemma flag_bit4: "(w :: 8 word) AND 0x10 \<noteq> 0 \<longleftrightarrow> bit w 4"
proof -
  have "(0x10 :: 8 word) = 2 ^ 4" by simp
  then show ?thesis
    by (metis and_exp_eq_0_iff_not_bit)
qed

text \<open>
  Claim C3. For every notification buffer: with at most one byte the callback publishes
  nothing; otherwise it publishes byte 1 as the heart rate and then, as a second event,
  the RR intervals: the little-endian 16-bit values of the byte pairs from byte 2 on (a
  trailing odd byte dropped) when bit 4 of byte 0 is set and the buffer has at least 4
  bytes, and the absent value \<open>nil\<close> otherwise. The callback never panics.
\<close>

theorem notification_decodes:
  "notification buf =
     (if length buf \<le> 1 then ([], Returned)
      else ([HeartRate (buf ! 1),
             RRInterval (if bit (buf ! 0) 4 \<and> 4 \<le> length buf
                         then Some (pairsLE (drop 2 buf)) else None)], Returned))"
  by (simp add: notification_def rrLoop_pairs flag_bit4 Let_def del: rrLoop.simps)

theorem notification_decodes_witness:
  "notification [0x10, 72, 0x34, 0x12, 5] = ([HeartRate 72, RRInterval (Some [0x1234])], Returned)
   \<and> notification [0x00, 72, 0x34, 0x12] = ([HeartRate 72, RRInterval None], Returned)
   \<and> notification [0x10, 72, 0x34] = ([HeartRate 72, RRInterval None], Returned)
   \<and> notification [0x10] = ([], Returned)"
  using notification_decodes [of "[0x10, 72, 0x34, 0x12, 5]"]
    notification_decodes [of "[0x00, 72, 0x34, 0x12]"]
    notification_decodes [of "[0x10, 72, 0x34]"]
    notification_decodes [of "[0x10]"]
  by simp

section \<open>Writing a command\<close>

text \<open>
  Claim C1, as amended. \<open>writeCommand\<close> of the CO2 driver writes the bytes of the command
  followed by carriage return and line feed; \<open>writeCommand\<close> of the flow-rate driver
  writes the bytes of the command and nothing after them. Each makes exactly one write
  and returns an error exactly when that write fails.
\<close>

theorem writeCommand_writes:
  "vaisala_writeCommand command w =
     (if writeOk w (writes w) then None else Some FailedToWriteCommand,
      w\<lparr>writes := Suc (writes w), events := events w @ [Write (command @ [CHR 0x0D, CHR 0x0A])]\<rparr>)
   \<and> kurz_writeCommand command w =
     (if writeOk w (writes w) then None else Some FailedToWriteCommand,
      w\<lparr>writes := Suc (writes w), events := events w @ [Write command]\<rparr>)"
  by (simp add: vaisala_writeCommand_def kurz_writeCommand_def portWrite_def emit_def CRLF_def)

theorem writeCommand_writes_witness:
  "events (snd (vaisala_writeCommand ''send'' (device True None)))
     = [Write (''send'' @ [CHR 0x0D, CHR 0x0A])]
   \<and> fst (vaisala_writeCommand ''send'' (device True None)) = None
   \<and> fst (vaisala_writeCommand ''send'' (device False None)) = Some FailedToWriteCommand
   \<and> events (snd (kurz_writeCommand ''x'' (device True None))) = [Write ''x'']
   \<and> fst (kurz_writeCommand ''x'' (device False None)) = Some FailedToWriteCommand"
  using writeCommand_writes [of "''send''" "device True None"]
    writeCommand_writes [of "''send''" "device False None"]
    writeCommand_writes [of "''x''" "device True None"]
    writeCommand_writes [of "''x''" "device False None"]
  by (simp add: device_def)

text \<open>
  The claim as first stated fails for the flow-rate driver: asked to write \<open>x\<close> on a
  fresh connection, it writes the single byte \<open>x\<close>, not \<open>x\<close> with the terminator.
\<close>

theorem kurz_writeCommand_no_terminator:
  "events (snd (kurz_writeCommand ''x'' (device True None))) = [Write ''x'']
   \<and> events (snd (kurz_writeCommand ''x'' (device True None)))
       \<noteq> events (device True None) @ [Write (''x'' @ CRLF)]"
  by (simp add: kurz_writeCommand_def portWrite_def emit_def device_def CRLF_def)

section \<open>The flow-rate override\<close>

lemma readFlowRate_override:
  "neZero (ks_constantFlowRateSCFM ks) \<Longrightarrow>
   readFlowRate pf ks w = (Inr (ks_constantFlowRateSCFM ks), w)"
  by (simp add: readFlowRate_def)

lemma example_override:
  "ks_constantFlowRateSCFM (newKurzSensor exampleParseFloat exampleEnv 9600) = 0x4004000000000000"
  by (simp add: newKurzSensor_def exampleParseFloat_def exampleEnv_def)

lemma example_neZero: "neZero (0x4004000000000000 :: 64 word)"
  by (simp add: neZero_def)

text \<open>
  Claim C2. For every flow-rate session whose override is not zero, every call of
  \<open>readFlowRate\<close> returns exactly the override and leaves the world as it was: no lock
  taken, nothing written, nothing read, whatever the device would have answered. The
  same holds for any number of calls in a row.
\<close>

theorem override_bypasses_io:
  "neZero (ks_constantFlowRateSCFM ks) \<Longrightarrow>
   readFlowRate pf ks w = (Inr (ks_constantFlowRateSCFM ks), w)
   \<and> readFlowRateTimes n pf ks w = (replicate n (Inr (ks_constantFlowRateSCFM ks)), w)"
  by (induction n) (simp_all add: readFlowRate_override)

theorem override_bypasses_io_witness:
  "neZero (ks_constantFlowRateSCFM (newKurzSensor exampleParseFloat exampleEnv 9600))
   \<and> readFlowRateTimes 3 exampleParseFloat (newKurzSensor exampleParseFloat exampleEnv 9600)
        (device False None)
      = ([Inr 0x4004000000000000, Inr 0x4004000000000000, Inr 0x4004000000000000],
         device False None)
   \<and> events (device False None) = []"
proof -
  have nz: "neZero (ks_constantFlowRateSCFM (newKurzSensor exampleParseFloat exampleEnv 9600))"
    by (simp add: example_override example_neZero)
  from override_bypasses_io [OF nz, of exampleParseFloat "device False None" 3] nz
  show ?thesis
    by (simp add: example_override numeral_3_eq_3 device_def)
qed

section \<open>Device discovery\<close>

text \<open>
  Claim C6. For every device-listing text, \<open>searchPorts\<close> of either wired driver takes
  the first match of its vendor pattern, splits it on white space and takes the last
  token; if that token contains a \<open>/\<close> the result is the locator built from the
  token's final path segment and the template \<open>/dev/%s\<close>. Without a match, and with a
  last token that has no \<open>/\<close>, it fails with the not-found error. (A match always has a
  token, since it begins with the \<open>u\<close> of \<open>usb-\<close>: lemmas \<open>vaisala_match_fields\<close> and
  \<open>kurz_match_fields\<close>.)
\<close>

theorem discovery:
  "vaisala_searchPorts (Some output) =
     (case firstMatch vaisalaRegexSensorSerialUSBPrefix output of
        None \<Rightarrow> Inl SensorNotFound
      | Some m \<Rightarrow> locatorOf m)
   \<and> kurz_searchPorts (Some output) =
     (case firstMatch kurzRegexSensorSerialUSBPrefix output of
        None \<Rightarrow> Inl SensorNotFound
      | Some m \<Rightarrow> locatorOf m)"
proof
  show "vaisala_searchPorts (Some output) =
     (case firstMatch vaisalaRegexSensorSerialUSBPrefix output of
        None \<Rightarrow> Inl SensorNotFound
      | Some m \<Rightarrow> locatorOf m)"
  proof (cases "firstMatch vaisalaRegexSensorSerialUSBPrefix output")
    case None
    then show ?thesis
      by (simp add: vaisala_searchPorts_def FindStringSubmatch_None)
  next
    case (Some m)
    with vaisala_searchPorts_match [OF Some] show ?thesis by simp
  qed
next
  show "kurz_searchPorts (Some output) =
     (case firstMatch kurzRegexSensorSerialUSBPrefix output of
        None \<Rightarrow> Inl SensorNotFound
      | Some m \<Rightarrow> locatorOf m)"
  proof (cases "firstMatch kurzRegexSensorSerialUSBPrefix output")
    case None
    then show ?thesis
      by (simp add: kurz_searchPorts_def FindStringSubmatch_None)
  next
    case (Some m)
    with kurz_searchPorts_match [OF Some] show ?thesis by simp
  qed
qed

theorem discovery_witness:
  "vaisala_searchPorts (Some exampleListing) = Inr ''/dev/ttyUSB0''
   \<and> kurz_searchPorts (Some exampleListing) = Inl SensorNotFound
   \<and> firstMatch kurzRegexSensorSerialUSBPrefix exampleListingFlat
       = Some ''usb-FTDI_FT232R_USB_UART_A50285BI-if00-port0 -> ttyUSB1''
   \<and> kurz_searchPorts (Some exampleListingFlat) = Inl SensorNotFound"
proof -
  have a: "(case firstMatch vaisalaRegexSensorSerialUSBPrefix exampleListing of
              None \<Rightarrow> Inl SensorNotFound | Some m \<Rightarrow> locatorOf m) = Inr ''/dev/ttyUSB0''"
    by code_simp
  have b: "(case firstMatch kurzRegexSensorSerialUSBPrefix exampleListing of
              None \<Rightarrow> Inl SensorNotFound | Some m \<Rightarrow> locatorOf m) = Inl SensorNotFound"
    by code_simp
  have c: "firstMatch kurzRegexSensorSerialUSBPrefix exampleListingFlat
       = Some ''usb-FTDI_FT232R_USB_UART_A50285BI-if00-port0 -> ttyUSB1''"
    by code_simp
  have d: "(case firstMatch kurzRegexSensorSerialUSBPrefix exampleListingFlat of
              None \<Rightarrow> Inl SensorNotFound | Some m \<Rightarrow> locatorOf m) = Inl SensorNotFound"
    by code_simp
  from discovery [of exampleListing] discovery [of exampleListingFlat] a b c d
  show ?thesis by (simp only: simp_thms)
qed

section \<open>Parsing the CO2 response\<close>

lemma readCO2_line:
  assumes "writeOk w (writes w)" "lineOf w (reads w) = Some line"
  shows "fst (readCO2 pf w) =
     (if length (Split line (CHR ''='')) < 2 then Inl InvalidResponseFormat
      else if length (Fields (TrimSpace (Split line (CHR ''='') ! 1))) < 1
        then Inl FailedToParseCO2FromResponse
      else (case pf (Fields (TrimSpace (Split line (CHR ''='') ! 1)) ! 0) of
              None \<Rightarrow> Inl FailedToParseCO2Value
            | Some co2 \<Rightarrow> Inr co2))"
  using assms
  by (simp add: readCO2_def vaisala_writeCommand_def portWrite_def readString_def emit_def
        Let_def split: option.splits)

text \<open>
  Claim C4. For every response line that \<open>readCO2\<close> reads after a successful write: the
  line is split on \<open>=\<close>; with fewer than two segments (no \<open>=\<close> in the line) the result
  is the error \<open>invalid response format\<close>; otherwise the second segment is trimmed of
  white space and its first white-space-delimited token is parsed as a float, which is
  the result; without a token, and with a token that does not parse, the result is an
  error. The line \<open>CO2=  412.35 ppm\<close> gives what \<open>412.35\<close> parses to.
\<close>

theorem co2_parsing:
  assumes "writeOk w (writes w)" "lineOf w (reads w) = Some line"
  shows "fst (readCO2 pf w) = co2OfLine pf line"
proof (cases "CHR ''='' \<in> set line")
  case False
  then have "length (Split line (CHR ''='')) < 2" by (simp add: Split_short)
  with False show ?thesis
    by (simp add: readCO2_line [OF assms] co2OfLine_def)
next
  case True
  then have l: "\<not> length (Split line (CHR ''='')) < 2" by (simp add: Split_short)
  from Split_second [OF True] have s: "Split line (CHR ''='') ! 1 = secondSegment line"
    by (simp add: secondSegment_def)
  show ?thesis
    unfolding readCO2_line [OF assms] co2OfLine_def s
    using True l by (cases "Fields (TrimSpace (secondSegment line))") simp_all
qed

theorem co2_parsing_witness:
  "fst (readCO2 exampleParseFloat (device True (Some (''CO2=  412.35 ppm'' @ [CHR 0x0A]))))
     = Inr 0x4079C5999999999A
   \<and> fst (readCO2 exampleParseFloat (device True (Some (''CO2 412.35 ppm'' @ [CHR 0x0A]))))
     = Inl InvalidResponseFormat
   \<and> fst (readCO2 exampleParseFloat (device True (Some (''CO2= '' @ [CHR 0x0A]))))
     = Inl FailedToParseCO2FromResponse
   \<and> fst (readCO2 exampleParseFloat (device True (Some (''CO2= ppm 412.35'' @ [CHR 0x0A]))))
     = Inl FailedToParseCO2Value"
proof -
  have w: "\<And>l. writeOk (device True l) (writes (device True l))"
    and r: "\<And>l. lineOf (device True l) (reads (device True l)) = l"
    by (simp_all add: device_def)
  have a: "co2OfLine exampleParseFloat (''CO2=  412.35 ppm'' @ [CHR 0x0A]) = Inr 0x4079C5999999999A"
    by code_simp
  have b: "co2OfLine exampleParseFloat (''CO2 412.35 ppm'' @ [CHR 0x0A]) = Inl InvalidResponseFormat"
    by code_simp
  have c: "co2OfLine exampleParseFloat (''CO2= '' @ [CHR 0x0A]) = Inl FailedToParseCO2FromResponse"
    by code_simp
  have d: "co2OfLine exampleParseFloat (''CO2= ppm 412.35'' @ [CHR 0x0A]) = Inl FailedToParseCO2Value"
    by code_simp
  from
    co2_parsing [where w = "device True (Some (''CO2=  412.35 ppm'' @ [CHR 0x0A]))" and line = "''CO2=  412.35 ppm'' @ [CHR 0x0A]"
        and pf = exampleParseFloat, OF w r]
    co2_parsing [where w = "device True (Some (''CO2 412.35 ppm'' @ [CHR 0x0A]))" and line = "''CO2 412.35 ppm'' @ [CHR 0x0A]"
        and pf = exampleParseFloat, OF w r]
    co2_parsing [where w = "device True (Some (''CO2= '' @ [CHR 0x0A]))" and line = "''CO2= '' @ [CHR 0x0A]"
        and pf = exampleParseFloat, OF w r]
    co2_parsing [where w = "device True (Some (''CO2= ppm 412.35'' @ [CHR 0x0A]))" and line = "''CO2= ppm 412.35'' @ [CHR 0x0A]"
        and pf = exampleParseFloat, OF w r]
    a b c d
  show ?thesis by (simp only: simp_thms)
qed


section \<open>Parsing the flow-rate response\<close>

lemma readFlowRate_line:
  assumes "\<not> neZero (ks_constantFlowRateSCFM ks)"
    "writeOk w (writes w)" "lineOf w (reads w) = Some line"
  shows "fst (readFlowRate pf ks w) =
     (if length (Fields line) < 4 then Inl InvalidResponseFormat
      else (case pf (Fields line ! 3) of
              None \<Rightarrow> Inl FailedToParseFlowRate
            | Some flowRate \<Rightarrow> Inr flowRate))"
  using assms
  by (simp add: readFlowRate_def kurz_writeCommand_def portWrite_def readString_def emit_def
        Let_def split: option.splits)

text \<open>
  Claim C5. For every response line that \<open>readFlowRate\<close> reads after a successful write,
  in a session without override: the whole line is split on white space and the result
  is the fourth token parsed as a float; the result is an error exactly when there are
  fewer than four tokens or the fourth token does not parse.
\<close>

theorem flow_parsing:
  assumes "\<not> neZero (ks_constantFlowRateSCFM ks)"
    "writeOk w (writes w)" "lineOf w (reads w) = Some line"
  shows "fst (readFlowRate pf ks w) = flowOfLine pf line
    \<and> (isl (fst (readFlowRate pf ks w))
         \<longleftrightarrow> length (Fields line) < 4 \<or> pf (Fields line ! 3) = None)
    \<and> (\<forall>v. fst (readFlowRate pf ks w) = Inr v
         \<longleftrightarrow> 4 \<le> length (Fields line) \<and> pf (Fields line ! 3) = Some v)"
proof (cases "length (Fields line) < 4")
  case True
  then have "drop 3 (Fields line) = []" by simp
  with True show ?thesis
    by (simp add: readFlowRate_line [OF assms] flowOfLine_def)
next
  case False
  then have "3 < length (Fields line)" by simp
  from Cons_nth_drop_Suc [OF this]
  have "drop 3 (Fields line) = Fields line ! 3 # drop 4 (Fields line)" by simp
  with False show ?thesis
    by (auto simp add: readFlowRate_line [OF assms] flowOfLine_def split: option.splits)
qed

lemma example_no_override:
  "\<not> neZero (ks_constantFlowRateSCFM (newKurzSensor exampleParseFloat (\<lambda>name. []) 9600))"
  by (simp add: newKurzSensor_def neZero_def)

theorem flow_parsing_witness:
  "fst (readFlowRate exampleParseFloat (newKurzSensor exampleParseFloat (\<lambda>name. []) 9600)
         (device True (Some (''FLOW 01 SCFM 123.45 OK'' @ [CHR 0x0A]))))
     = Inr 0x405EDCCCCCCCCCCD
   \<and> fst (readFlowRate exampleParseFloat (newKurzSensor exampleParseFloat (\<lambda>name. []) 9600)
         (device True (Some (''FLOW 01 123.45'' @ [CHR 0x0A]))))
     = Inl InvalidResponseFormat
   \<and> fst (readFlowRate exampleParseFloat (newKurzSensor exampleParseFloat (\<lambda>name. []) 9600)
         (device True (Some (''FLOW 01 SCFM 12x.45 OK'' @ [CHR 0x0A]))))
     = Inl FailedToParseFlowRate"
proof -
  have w: "\<And>l. writeOk (device True l) (writes (device True l))"
    and r: "\<And>l. lineOf (device True l) (reads (device True l)) = l"
    by (simp_all add: device_def)
  have a: "flowOfLine exampleParseFloat (''FLOW 01 SCFM 123.45 OK'' @ [CHR 0x0A])
             = Inr 0x405EDCCCCCCCCCCD"
    by code_simp
  have b: "flowOfLine exampleParseFloat (''FLOW 01 123.45'' @ [CHR 0x0A])
             = Inl InvalidResponseFormat"
    by code_simp
  have c: "flowOfLine exampleParseFloat (''FLOW 01 SCFM 12x.45 OK'' @ [CHR 0x0A])
             = Inl FailedToParseFlowRate"
    by code_simp
  from
    flow_parsing [where w = "device True (Some (''FLOW 01 SCFM 123.45 OK'' @ [CHR 0x0A]))"
        and line = "''FLOW 01 SCFM 123.45 OK'' @ [CHR 0x0A]"
        and pf = exampleParseFloat, OF example_no_override w r]
    flow_parsing [where w = "device True (Some (''FLOW 01 123.45'' @ [CHR 0x0A]))"
        and line = "''FLOW 01 123.45'' @ [CHR 0x0A]"
        and pf = exampleParseFloat, OF example_no_override w r]
    flow_parsing [where w = "device True (Some (''FLOW 01 SCFM 12x.45 OK'' @ [CHR 0x0A]))"
        and line = "''FLOW 01 SCFM 12x.45 OK'' @ [CHR 0x0A]"
        and pf = exampleParseFloat, OF example_no_override w r]
    a b c
  show ?thesis by (simp only: simp_thms)
qed


end
